theory Spec2Isabelle
  imports Main "HOL-Library.Word" "HOL-Library.AList"
begin

section \<open>The browser tool: strings, the snapshot parser and the ref table\<close>

text \<open>
  The tool is written in TypeScript. A string is a sequence of UTF-16 code units:
  \<open>length\<close>, \<open>slice\<close>, \<open>split\<close> and the regular expressions of the source
  (none has the \<open>u\<close> flag) all work on code units, so a string is a list of 16-bit words.
  \<open>js\<close> embeds an ASCII literal of the source.
\<close>

type_synonym code_unit = "16 word"
type_synonym jsstring = "code_unit list"

definition js :: "string \<Rightarrow> jsstring" where
  "js s = map of_char s"

subsection \<open>Character classes of the regular expressions\<close>

text \<open>\<open>\d\<close> is \<open>[0-9]\<close>, \<open>\w\<close> is \<open>[A-Za-z0-9_]\<close>, and \<open>\s\<close> is the white space
  and line terminator code units of ECMAScript.\<close>

definition is_digit :: "code_unit \<Rightarrow> bool" where
  "is_digit c \<longleftrightarrow> 0x30 \<le> c \<and> c \<le> 0x39"

definition is_word :: "code_unit \<Rightarrow> bool" where
  "is_word c \<longleftrightarrow> (0x61 \<le> c \<and> c \<le> 0x7A) \<or> (0x41 \<le> c \<and> c \<le> 0x5A) \<or> is_digit c \<or> c = 0x5F"

definition is_space :: "code_unit \<Rightarrow> bool" where
  "is_space c \<longleftrightarrow>
     c = 0x09 \<or> c = 0x0A \<or> c = 0x0B \<or> c = 0x0C \<or> c = 0x0D \<or> c = 0x20 \<or> c = 0xA0 \<or>
     c = 0x1680 \<or> (0x2000 \<le> c \<and> c \<le> 0x200A) \<or> c = 0x2028 \<or> c = 0x2029 \<or>
     c = 0x202F \<or> c = 0x205F \<or> c = 0x3000 \<or> c = 0xFEFF"

definition dquote :: code_unit where
  "dquote = 0x22"

subsection \<open>String operations\<close>

text \<open>\<open>s.split('\n')\<close>: the pieces between line feeds; never an empty array.\<close>

fun split_on :: "code_unit \<Rightarrow> jsstring \<Rightarrow> jsstring list" where
  "split_on sep [] = [[]]"
| "split_on sep (c # cs) =
     (if c = sep then [] # split_on sep cs
      else (case split_on sep cs of
              l # ls \<Rightarrow> (c # l) # ls
            | [] \<Rightarrow> [[c]]))"

text \<open>\<open>s.slice(0, end)\<close> for an integer \<open>end\<close>: a negative \<open>end\<close> counts from the end
  of the string.\<close>

definition slice0 :: "jsstring \<Rightarrow> int \<Rightarrow> jsstring" where
  "slice0 s e =
     (let len = int (length s);
          to = (if e < 0 then max (len + e) 0 else min e len)
      in take (nat to) s)"

text \<open>\<open>parseInt(ds, 10)\<close> on a string of decimal digits (the only strings the parser
  passes to it). The value is kept exactly; a JavaScript number holds it exactly up to
  \<open>2 ^ 53\<close>.\<close>

definition parseInt10 :: "jsstring \<Rightarrow> nat" where
  "parseInt10 ds = foldl (\<lambda>a c. 10 * a + (unat c - 48)) 0 ds"

subsection \<open>The four regular expressions of the parser\<close>

fun strip_prefix :: "jsstring \<Rightarrow> jsstring \<Rightarrow> jsstring option" where
  "strip_prefix [] s = Some s"
| "strip_prefix (p # ps) [] = None"
| "strip_prefix (p # ps) (c # cs) = (if p = c then strip_prefix ps cs else None)"

text \<open>\<open>String.prototype.match\<close> with a regular expression that has no flag: the match
  that starts leftmost. \<open>m\<close> matches the expression at the start of its argument.\<close>

fun regex_search :: "(jsstring \<Rightarrow> 'a option) \<Rightarrow> jsstring \<Rightarrow> 'a option" where
  "regex_search m [] = m []"
| "regex_search m (c # cs) =
     (case m (c # cs) of Some r \<Rightarrow> Some r | None \<Rightarrow> regex_search m cs)"

text \<open>\<open>opener(\d+)\]\<close> at the start of \<open>s\<close>, capturing the digits. \<open>\d+\<close> is greedy,
  and a shorter run of digits is followed by a digit, never by \<open>]\<close>: the run is the
  longest one.\<close>

definition digits_marker_at :: "jsstring \<Rightarrow> jsstring \<Rightarrow> jsstring option" where
  "digits_marker_at opener s =
     (case strip_prefix opener s of
        None \<Rightarrow> None
      | Some rest \<Rightarrow>
          (let ds = takeWhile is_digit rest in
           if ds \<noteq> [] \<and> (case dropWhile is_digit rest of c # _ \<Rightarrow> c = 0x5D | [] \<Rightarrow> False)
           then Some ds else None))"

text \<open>\<open>line.match(/\[ref=(e\d+)\]/)\<close>, group 1.\<close>

definition refMatch :: "jsstring \<Rightarrow> jsstring option" where
  "refMatch line =
     map_option (\<lambda>ds. 0x65 # ds) (regex_search (digits_marker_at (js ''[ref=e'')) line)"

text \<open>\<open>line.match(/^\s*-\s*(\w+)/)\<close>, group 1. The expression is anchored at the start
  of the line; each greedy run is followed by a character outside its class, so no
  shorter run can match.\<close>

definition roleMatch :: "jsstring \<Rightarrow> jsstring option" where
  "roleMatch line =
     (case dropWhile is_space line of
        [] \<Rightarrow> None
      | c # rest \<Rightarrow>
          if c = 0x2D then
            (let w = takeWhile is_word (dropWhile is_space rest) in
             if w \<noteq> [] then Some w else None)
          else None)"

text \<open>\<open>"([^"]+)"\<close> at the start of \<open>s\<close>, capturing the text between the quotes.\<close>

definition quoted_at :: "jsstring \<Rightarrow> jsstring option" where
  "quoted_at s =
     (case s of
        [] \<Rightarrow> None
      | c # rest \<Rightarrow>
          if c = dquote then
            (let body = takeWhile (\<lambda>x. x \<noteq> dquote) rest in
             if body \<noteq> [] \<and> dropWhile (\<lambda>x. x \<noteq> dquote) rest \<noteq> [] then Some body else None)
          else None)"

text \<open>\<open>line.match(/"([^"]+)"/)\<close>, group 1.\<close>

definition nameMatch :: "jsstring \<Rightarrow> jsstring option" where
  "nameMatch line = regex_search quoted_at line"

text \<open>\<open>line.match(/\[nth=(\d+)\]/)\<close>, group 1.\<close>

definition nthMatch :: "jsstring \<Rightarrow> jsstring option" where
  "nthMatch line = regex_search (digits_marker_at (js ''[nth='')) line"

subsection \<open>The ref table\<close>

text \<open>An entry \<open>{ role, name?, nth? }\<close>. The table is a JavaScript \<open>Map\<close>: an
  association list in insertion order, in which \<open>set\<close> on a key already present
  replaces the value in place.\<close>

record ref_entry =
  ref_role :: jsstring
  ref_name :: "jsstring option"
  ref_nth :: "nat option"

type_synonym ref_table = "(jsstring \<times> ref_entry) list"

text \<open>The body of the loop of \<open>parseRefsFromSnapshot\<close> for one line: \<open>None\<close> is
  \<open>continue\<close>, otherwise the key and the value of \<open>refs.set\<close>.\<close>

definition parse_line :: "jsstring \<Rightarrow> (jsstring \<times> ref_entry) option" where
  "parse_line line =
     (case refMatch line of
        None \<Rightarrow> None
      | Some r \<Rightarrow>
          Some (r, \<lparr> ref_role = (case roleMatch line of Some w \<Rightarrow> w | None \<Rightarrow> js ''generic''),
                     ref_name = nameMatch line,
                     ref_nth = map_option parseInt10 (nthMatch line) \<rparr>))"

fun parse_loop :: "ref_table \<Rightarrow> jsstring list \<Rightarrow> ref_table" where
  "parse_loop refs [] = refs"
| "parse_loop refs (line # lines) =
     (case parse_line line of
        None \<Rightarrow> parse_loop refs lines
      | Some (r, e) \<Rightarrow> parse_loop (AList.update r e refs) lines)"

definition parseRefsFromSnapshot :: "jsstring \<Rightarrow> ref_table" where
  "parseRefsFromSnapshot snapshot = parse_loop [] (split_on 0x0A snapshot)"

section \<open>The session: module state, the browser driver and the actions\<close>

subsection \<open>The driver\<close>

text \<open>
  Playwright is outside the repository. Its objects are handles (natural numbers), its
  locators are descriptions that are resolved only when an action runs on them, and the
  model keeps of the driver what the tool relies on: which context a page belongs to,
  which browser a context belongs to, and which browsers have been closed. A page is
  open as long as the browser that owns it has not been closed (the tool never closes a
  single page or context).
\<close>

datatype locator =
    Locator nat jsstring
  | GetByRole nat jsstring "jsstring option"
  | Nth locator nat

text \<open>\<open>Locator p sel\<close> is \<open>p.locator(sel)\<close>; \<open>GetByRole p role None\<close> is
  \<open>p.getByRole(role, {})\<close> and \<open>GetByRole p role (Some n)\<close> is
  \<open>p.getByRole(role, { name: n, exact: true })\<close>; \<open>Nth l n\<close> is \<open>l.nth(n)\<close>.\<close>

datatype driver_call =
    Launch
  | NewContext nat
  | NewPage nat
  | PageContext nat
  | Goto nat jsstring
  | PageUrl nat
  | PageTitle nat
  | WaitForLoadState nat nat
  | SnapshotForAI nat
  | AriaSnapshot locator
  | LocatorClick locator
  | LocatorFill locator jsstring
  | LocatorHover locator
  | KeyboardPress nat jsstring
  | MouseWheel nat int int
  | WaitForTimeout nat int
  | Evaluate nat
  | BrowserClose nat
  | LogError jsstring

record driver_world =
  next_handle :: nat
  pages :: "nat set"
  page_context :: "nat \<Rightarrow> nat"
  context_browser :: "nat \<Rightarrow> nat"
  closed_browsers :: "nat set"

definition page_open :: "driver_world \<Rightarrow> nat \<Rightarrow> bool" where
  "page_open w p \<longleftrightarrow> p \<in> pages w \<and> context_browser w (page_context w p) \<notin> closed_browsers w"

text \<open>What the driver answers during one invocation of the tool: for each call the
  tool can make, either the message of the error it throws (\<open>Inl\<close>) or its result.
  \<open>snapshotForAI_r = None\<close> says that the page has no \<open>_snapshotForAI\<close> method; its
  result may be nullish, and so may the field \<open>full\<close> of the result.\<close>

record responses =
  launch_r :: "jsstring + unit"
  newContext_r :: "jsstring + unit"
  ensure_newPage_r :: "jsstring + unit"
  open_newPage_r :: "jsstring + unit"
  goto_r :: "jsstring + unit"
  url_r :: jsstring
  title_r :: "jsstring + jsstring"
  waitForLoadState_r :: "jsstring + unit"
  snapshotForAI_r :: "(jsstring + jsstring option option) option"
  ariaSnapshot_r :: "jsstring + jsstring"
  click_r :: "jsstring + unit"
  fill_r :: "jsstring + unit"
  hover_r :: "jsstring + unit"
  press_r :: "jsstring + unit"
  wheel_r :: "jsstring + unit"
  waitForTimeout_r :: "jsstring + unit"
  evaluate_r :: "jsstring + jsstring"
  close_r :: "jsstring + unit"

subsection \<open>Module state\<close>

text \<open>The three module variables \<open>browser\<close>, \<open>page\<close> and \<open>currentRefs\<close>, the
  driver, and the calls made so far on the driver and on the logger (every attempt
  is recorded, whether it throws or not).\<close>

record state =
  browser :: "nat option"
  page :: "nat option"
  currentRefs :: ref_table
  world :: driver_world
  calls :: "driver_call list"

definition initial_state :: state where
  "initial_state =
     \<lparr> browser = None, page = None, currentRefs = [],
       world = \<lparr> next_handle = 0, pages = {}, page_context = (\<lambda>_. 0),
                 context_browser = (\<lambda>_. 0), closed_browsers = {} \<rparr>,
       calls = [] \<rparr>"

text \<open>A step either throws (\<open>Inl\<close> the message that the \<open>catch\<close> clause of the tool
  derives from the thrown value) or returns, and leaves a state.\<close>

type_synonym 'a step = "state \<Rightarrow> (jsstring + 'a) \<times> state"

definition return :: "'a \<Rightarrow> 'a step" where
  "return x s = (Inr x, s)"

definition then_do :: "'a step \<Rightarrow> ('a \<Rightarrow> 'b step) \<Rightarrow> 'b step" where
  "then_do m f s = (case m s of (Inl e, s') \<Rightarrow> (Inl e, s') | (Inr x, s') \<Rightarrow> f x s')"

text \<open>\<open>m.catch(() => {})\<close>\<close>

definition swallow :: "unit step \<Rightarrow> unit step" where
  "swallow m s = (case m s of (_, s') \<Rightarrow> (Inr (), s'))"

definition call :: "driver_call \<Rightarrow> (jsstring + 'a) \<Rightarrow> 'a step" where
  "call c outcome s = (outcome, s\<lparr>calls := calls s @ [c]\<rparr>)"

definition fresh_handle :: "nat step" where
  "fresh_handle s =
     (Inr (next_handle (world s)),
      s\<lparr>world := (world s)\<lparr>next_handle := Suc (next_handle (world s))\<rparr>\<rparr>)"

definition chromium_launch :: "responses \<Rightarrow> nat step" where
  "chromium_launch r = then_do (call Launch (launch_r r)) (\<lambda>_. fresh_handle)"

definition newContext :: "jsstring + unit \<Rightarrow> nat \<Rightarrow> nat step" where
  "newContext outcome b =
     then_do (call (NewContext b) outcome) (\<lambda>_.
     then_do fresh_handle (\<lambda>c s.
       (Inr c, s\<lparr>world := (world s)\<lparr>context_browser := (context_browser (world s))(c := b)\<rparr>\<rparr>)))"

definition newPage :: "jsstring + unit \<Rightarrow> nat \<Rightarrow> nat step" where
  "newPage outcome c =
     then_do (call (NewPage c) outcome) (\<lambda>_.
     then_do fresh_handle (\<lambda>p s.
       (Inr p, s\<lparr>world := (world s)\<lparr>pages := insert p (pages (world s)),
                                        page_context := (page_context (world s))(p := c)\<rparr>\<rparr>)))"

text \<open>\<open>page.context()\<close>: a synchronous getter.\<close>

definition context_of :: "nat \<Rightarrow> nat step" where
  "context_of p s = call (PageContext p) (Inr (page_context (world s) p)) s"

definition browser_close :: "jsstring + unit \<Rightarrow> nat \<Rightarrow> unit step" where
  "browser_close outcome b =
     then_do (call (BrowserClose b) outcome) (\<lambda>_ s.
       (Inr (), s\<lparr>world := (world s)\<lparr>closed_browsers := insert b (closed_browsers (world s))\<rparr>\<rparr>))"

subsection \<open>Session management\<close>

definition ensureBrowser :: "responses \<Rightarrow> nat step" where
  "ensureBrowser r =
     then_do (\<lambda>s. case browser s of
                     Some b \<Rightarrow> return b s
                   | None \<Rightarrow> then_do (chromium_launch r) (\<lambda>b s. (Inr b, s\<lparr>browser := Some b\<rparr>)) s)
       (\<lambda>b s. case page s of
                 Some p \<Rightarrow> return p s
               | None \<Rightarrow>
                   then_do (newContext (newContext_r r) b) (\<lambda>c.
                   then_do (newPage (ensure_newPage_r r) c) (\<lambda>p s.
                     (Inr p, s\<lparr>page := Some p\<rparr>))) s)"

definition closeBrowser :: "responses \<Rightarrow> unit step" where
  "closeBrowser r s =
     (case browser s of
        Some b \<Rightarrow>
          then_do (browser_close (close_r r) b) (\<lambda>_ s.
            (Inr (), s\<lparr>browser := None, page := None, currentRefs := []\<rparr>)) s
      | None \<Rightarrow> return () s)"

subsection \<open>Resolving a ref, taking a snapshot\<close>

definition resolveRefToLocator :: "ref_table \<Rightarrow> nat \<Rightarrow> jsstring \<Rightarrow> locator" where
  "resolveRefToLocator refs p ref =
     (case map_of refs ref of
        None \<Rightarrow> Locator p (js ''aria-ref='' @ ref)
      | Some refData \<Rightarrow>
          (let options = (case ref_name refData of
                            Some (c # cs) \<Rightarrow> Some (c # cs)
                          | _ \<Rightarrow> None);
               locator = GetByRole p (ref_role refData) options
           in case ref_nth refData of
                Some n \<Rightarrow> if n > 0 then Nth locator n else locator
              | None \<Rightarrow> locator))"

definition TRUNCATED_MARKER :: jsstring where
  "TRUNCATED_MARKER =
     [0x0A, 0x0A] @ js ''[...TRUNCATED - page too large, use read action for full text]''"

text \<open>The first half of \<open>takeSnapshot\<close>: the text of the tree, from
  \<open>_snapshotForAI\<close> when the page has it, from \<open>ariaSnapshot\<close> of the root otherwise.\<close>

definition capture_snapshot :: "nat \<Rightarrow> responses \<Rightarrow> jsstring step" where
  "capture_snapshot p r =
     (case snapshotForAI_r r of
        Some outcome \<Rightarrow>
          then_do (call (SnapshotForAI p) outcome) (\<lambda>result.
            return (case result of Some (Some full) \<Rightarrow> full | _ \<Rightarrow> []))
      | None \<Rightarrow> call (AriaSnapshot (Locator p (js '':root''))) (ariaSnapshot_r r))"

definition takeSnapshot :: "nat \<Rightarrow> int option \<Rightarrow> responses \<Rightarrow> (jsstring \<times> bool) step" where
  "takeSnapshot p maxChars r =
     then_do (capture_snapshot p r) (\<lambda>snapshot s.
       (let s1 = s\<lparr>currentRefs := parseRefsFromSnapshot snapshot\<rparr>;
            limit = (case maxChars of Some m \<Rightarrow> m | None \<Rightarrow> 50000)
        in if int (length snapshot) > limit
           then (Inr (slice0 snapshot limit @ TRUNCATED_MARKER, True), s1)
           else (Inr (snapshot, False), s1)))"

subsection \<open>The tool\<close>

datatype act_kind = KClick | KType | KPress | KHover | KScroll | KWait

datatype direction = Up | Down

record act_request =
  rq_kind :: act_kind
  rq_ref :: "jsstring option"
  rq_text :: "jsstring option"
  rq_key :: "jsstring option"
  rq_direction :: "direction option"
  rq_timeMs :: "int option"

datatype action = Navigate | Open | Snapshot | Act | Read | Close

text \<open>The argument of the tool, as the schema types it. \<open>maxChars\<close> and \<open>timeMs\<close> are
  numbers: any integer is an input (numbers that are not integers are not modelled).\<close>

record tool_input =
  in_action :: action
  in_url :: "jsstring option"
  in_maxChars :: "int option"
  in_request :: "act_request option"

text \<open>The objects that the tool hands to \<open>formatToolResult\<close>, one constructor for
  each shape.\<close>

datatype payload =
    ErrorP jsstring
  | LoadedP jsstring jsstring jsstring
  | SnapshotP jsstring jsstring jsstring bool nat ref_table jsstring
  | ClickedP jsstring jsstring
  | TypedP jsstring jsstring
  | PressedP jsstring
  | HoveredP jsstring
  | ScrolledP direction
  | WaitedP int
  | ReadP jsstring jsstring jsstring
  | ClosedP jsstring

text \<open>\<open>ErrorP e\<close> is \<open>{ error: e }\<close>; \<open>LoadedP url title hint\<close> is
  \<open>{ ok: true, url, title, hint }\<close>;
  \<open>SnapshotP url title snapshot truncated refCount refs hint\<close>;
  \<open>ClickedP clicked hint\<close>; \<open>TypedP ref typed\<close>; \<open>PressedP pressed\<close>;
  \<open>HoveredP hovered\<close>; \<open>ScrolledP scrolled\<close>; \<open>WaitedP waited\<close>;
  \<open>ReadP url title content\<close>; \<open>ClosedP message\<close> (the last seven and \<open>ClickedP\<close>
  with \<open>ok: true\<close>).\<close>

text \<open>\<open>!v\<close> for an optional string is true for \<open>undefined\<close> and for the empty
  string; \<open>truthy v\<close> is the string when \<open>!v\<close> is false.\<close>

definition truthy :: "jsstring option \<Rightarrow> jsstring option" where
  "truthy v = (case v of Some (c # cs) \<Rightarrow> Some (c # cs) | _ \<Rightarrow> None)"

definition case_navigate :: "jsstring option \<Rightarrow> responses \<Rightarrow> payload step" where
  "case_navigate url r =
     (case truthy url of
        None \<Rightarrow> return (ErrorP (js ''url is required for navigate action''))
      | Some u \<Rightarrow>
          then_do (ensureBrowser r) (\<lambda>p.
          then_do (call (Goto p u) (goto_r r)) (\<lambda>_.
          then_do (call (PageUrl p) (Inr (url_r r))) (\<lambda>pu.
          then_do (call (PageTitle p) (title_r r)) (\<lambda>title.
          return (LoadedP pu title
            (js ''Page loaded. Call snapshot to see page structure and find elements to interact with.'')))))))"

definition case_open :: "jsstring option \<Rightarrow> responses \<Rightarrow> payload step" where
  "case_open url r =
     (case truthy url of
        None \<Rightarrow> return (ErrorP (js ''url is required for open action''))
      | Some u \<Rightarrow>
          then_do (ensureBrowser r) (\<lambda>currentPage.
          then_do (context_of currentPage) (\<lambda>context.
          then_do (newPage (open_newPage_r r) context) (\<lambda>newPage.
          then_do (call (Goto newPage u) (goto_r r)) (\<lambda>_.
          then_do (\<lambda>s. (Inr (), s\<lparr>page := Some newPage\<rparr>)) (\<lambda>_.
          then_do (call (PageUrl newPage) (Inr (url_r r))) (\<lambda>pu.
          then_do (call (PageTitle newPage) (title_r r)) (\<lambda>title.
          return (LoadedP pu title
            (js ''New tab opened. Call snapshot to see page structure and find elements to interact with.''))))))))))"

definition case_snapshot :: "int option \<Rightarrow> responses \<Rightarrow> payload step" where
  "case_snapshot maxChars r =
     then_do (ensureBrowser r) (\<lambda>p.
     then_do (swallow (call (WaitForLoadState p 5000) (waitForLoadState_r r))) (\<lambda>_.
     then_do (takeSnapshot p maxChars r) (\<lambda>(snapshot, truncated).
     then_do (call (PageUrl p) (Inr (url_r r))) (\<lambda>pu.
     then_do (call (PageTitle p) (title_r r)) (\<lambda>title s.
       (Inr (SnapshotP pu title snapshot truncated (length (currentRefs s)) (currentRefs s)
          (js ''Use act with kind=\"click\" and ref=\"eN\" to click elements. Or navigate directly to a /url visible in the snapshot.'')),
        s))))))"

definition case_act :: "act_request option \<Rightarrow> responses \<Rightarrow> payload step" where
  "case_act request r =
     (case request of
        None \<Rightarrow> return (ErrorP (js ''request is required for act action''))
      | Some rq \<Rightarrow>
          then_do (ensureBrowser r) (\<lambda>p.
            case rq_kind rq of
              KClick \<Rightarrow>
                (case truthy (rq_ref rq) of
                   None \<Rightarrow> return (ErrorP (js ''ref is required for click''))
                 | Some ref \<Rightarrow>
                     then_do (\<lambda>s. call (LocatorClick (resolveRefToLocator (currentRefs s) p ref))
                                     (click_r r) s) (\<lambda>_.
                     then_do (swallow (call (WaitForLoadState p 10000) (waitForLoadState_r r))) (\<lambda>_.
                     return (ClickedP ref
                       (js ''Click successful. Call snapshot to see the updated page.'')))))
            | KType \<Rightarrow>
                (case truthy (rq_ref rq) of
                   None \<Rightarrow> return (ErrorP (js ''ref is required for type''))
                 | Some ref \<Rightarrow>
                     (case truthy (rq_text rq) of
                        None \<Rightarrow> return (ErrorP (js ''text is required for type''))
                      | Some text \<Rightarrow>
                          then_do (\<lambda>s. call (LocatorFill (resolveRefToLocator (currentRefs s) p ref) text)
                                          (fill_r r) s) (\<lambda>_.
                          return (TypedP ref text))))
            | KPress \<Rightarrow>
                (case truthy (rq_key rq) of
                   None \<Rightarrow> return (ErrorP (js ''key is required for press''))
                 | Some key \<Rightarrow>
                     then_do (call (KeyboardPress p key) (press_r r)) (\<lambda>_.
                     then_do (swallow (call (WaitForLoadState p 5000) (waitForLoadState_r r))) (\<lambda>_.
                     return (PressedP key))))
            | KHover \<Rightarrow>
                (case truthy (rq_ref rq) of
                   None \<Rightarrow> return (ErrorP (js ''ref is required for hover''))
                 | Some ref \<Rightarrow>
                     then_do (\<lambda>s. call (LocatorHover (resolveRefToLocator (currentRefs s) p ref))
                                     (hover_r r) s) (\<lambda>_.
                     return (HoveredP ref)))
            | KScroll \<Rightarrow>
                (let scrollDirection = (case rq_direction rq of Some d \<Rightarrow> d | None \<Rightarrow> Down);
                     amount = (if scrollDirection = Down then 500 else - 500)
                 in then_do (call (MouseWheel p 0 amount) (wheel_r r)) (\<lambda>_.
                    then_do (call (WaitForTimeout p 500) (waitForTimeout_r r)) (\<lambda>_.
                    return (ScrolledP scrollDirection))))
            | KWait \<Rightarrow>
                (let waitTime = min (case rq_timeMs rq of Some ms \<Rightarrow> ms | None \<Rightarrow> 2000) 10000
                 in then_do (call (WaitForTimeout p waitTime) (waitForTimeout_r r)) (\<lambda>_.
                    return (WaitedP waitTime)))))"

definition case_read :: "responses \<Rightarrow> payload step" where
  "case_read r =
     then_do (ensureBrowser r) (\<lambda>p.
     then_do (swallow (call (WaitForLoadState p 5000) (waitForLoadState_r r))) (\<lambda>_.
     then_do (call (Evaluate p) (evaluate_r r)) (\<lambda>content.
     then_do (call (PageUrl p) (Inr (url_r r))) (\<lambda>pu.
     then_do (call (PageTitle p) (title_r r)) (\<lambda>title.
     return (ReadP pu title content))))))"

definition case_close :: "responses \<Rightarrow> payload step" where
  "case_close r =
     then_do (closeBrowser r) (\<lambda>_. return (ClosedP (js ''Browser closed'')))"

text \<open>The body of the \<open>try\<close> block: the \<open>switch\<close> on the action.\<close>

definition try_body :: "tool_input \<Rightarrow> responses \<Rightarrow> payload step" where
  "try_body inp r =
     (case in_action inp of
        Navigate \<Rightarrow> case_navigate (in_url inp) r
      | Open \<Rightarrow> case_open (in_url inp) r
      | Snapshot \<Rightarrow> case_snapshot (in_maxChars inp) r
      | Act \<Rightarrow> case_act (in_request inp) r
      | Read \<Rightarrow> case_read r
      | Close \<Rightarrow> case_close r)"

text \<open>The \<open>try\<close> statement: the payload handed to \<open>formatToolResult\<close> and the state
  left. The \<open>catch\<close> clause logs the message and builds the error payload.\<close>

definition tool_payload :: "tool_input \<Rightarrow> responses \<Rightarrow> state \<Rightarrow> payload \<times> state" where
  "tool_payload inp r s =
     (case try_body inp r s of
        (Inr p, s') \<Rightarrow> (p, s')
      | (Inl message, s') \<Rightarrow>
          (ErrorP (js ''[Browser (Playwright)] '' @ message),
           s'\<lparr>calls := calls s' @ [LogError (js ''[Browser (Playwright)] error: '' @ message)]\<rparr>))"

text \<open>\<open>browserTool.func\<close>. \<open>formatToolResult\<close> is not part of the sources at hand: it
  is the parameter \<open>fmt\<close>, a function of the payload.\<close>

definition browserTool_func :: "(payload \<Rightarrow> 'r) \<Rightarrow> tool_input \<Rightarrow> responses \<Rightarrow> state \<Rightarrow> 'r \<times> state" where
  "browserTool_func fmt inp r s = (case tool_payload inp r s of (p, s') \<Rightarrow> (fmt p, s'))"

text \<open>A sequence of invocations, each with the answers of the driver during it, one
  after the other (the caller awaits each before the next).\<close>

fun run :: "(tool_input \<times> responses) list \<Rightarrow> state \<Rightarrow> state" where
  "run [] s = s"
| "run ((inp, r) # rest) s = run rest (snd (tool_payload inp r s))"

text \<open>A driver that never throws, for the examples.\<close>

definition all_ok :: responses where
  "all_ok =
     \<lparr> launch_r = Inr (), newContext_r = Inr (), ensure_newPage_r = Inr (),
       open_newPage_r = Inr (), goto_r = Inr (), url_r = js ''https://example.test/'',
       title_r = Inr (js ''Example''), waitForLoadState_r = Inr (),
       snapshotForAI_r = Some (Inr (Some (Some (js ''- link \"Docs\" [ref=e1]'')))),
       ariaSnapshot_r = Inr (js ''- link \"Docs\" [ref=e1]''),
       click_r = Inr (), fill_r = Inr (), hover_r = Inr (), press_r = Inr (),
       wheel_r = Inr (), waitForTimeout_r = Inr (), evaluate_r = Inr (js ''Docs''),
       close_r = Inr () \<rparr>"

definition request_of :: "act_kind \<Rightarrow> act_request" where
  "request_of k =
     \<lparr> rq_kind = k, rq_ref = None, rq_text = None, rq_key = None, rq_direction = None,
       rq_timeMs = None \<rparr>"

definition input :: "action \<Rightarrow> tool_input" where
  "input a = \<lparr> in_action = a, in_url = None, in_maxChars = None, in_request = None \<rparr>"

definition snapshot_of :: "jsstring \<Rightarrow> responses" where
  "snapshot_of text = all_ok\<lparr>snapshotForAI_r := Some (Inr (Some (Some text)))\<rparr>"

section \<open>What the regular expressions match\<close>

text \<open>
  The shapes that the parser looks for, stated on the text of a line. At offset \<open>k\<close>
  of the line stands a marker: the opener (\<open>[ref=e\<close> or \<open>[nth=\<close>), a non-empty run of
  digits \<open>ds\<close>, and \<open>]\<close>.
\<close>

definition marker_at :: "jsstring \<Rightarrow> jsstring \<Rightarrow> nat \<Rightarrow> jsstring \<Rightarrow> bool" where
  "marker_at opener line k ds \<longleftrightarrow>
     ds \<noteq> [] \<and> (\<forall>c\<in>set ds. is_digit c) \<and> (\<exists>post. drop k line = opener @ ds @ 0x5D # post)"

text \<open>At offset \<open>k\<close> stands a double quote, a non-empty run \<open>b\<close> without double quote,
  and a double quote.\<close>

definition quoted_run_at :: "jsstring \<Rightarrow> nat \<Rightarrow> jsstring \<Rightarrow> bool" where
  "quoted_run_at line k b \<longleftrightarrow>
     b \<noteq> [] \<and> dquote \<notin> set b \<and> (\<exists>post. drop k line = dquote # b @ dquote # post)"

text \<open>The leftmost offset at which a shape stands, and what stands there.\<close>

definition leftmost :: "(nat \<Rightarrow> 'a \<Rightarrow> bool) \<Rightarrow> nat \<Rightarrow> 'a \<Rightarrow> bool" where
  "leftmost P k x \<longleftrightarrow> P k x \<and> (\<forall>j<k. \<forall>y. \<not> P j y)"


section \<open>Invariants and their preservation\<close>

text \<open>The invariant of the module state: there is an active page only while there is a
  browser, and while there is no browser the ref table is empty.\<close>

definition session_inv :: "state \<Rightarrow> bool" where
  "session_inv s \<longleftrightarrow> (page s \<noteq> None \<longrightarrow> browser s \<noteq> None) \<and> (browser s = None \<longrightarrow> currentRefs s = [])"

text \<open>\<open>keeps J m\<close>: the step \<open>m\<close>, whether it throws or returns, leaves a state in
  \<open>J\<close> when started in one. \<open>establishes I J m\<close>: started in \<open>I\<close>, \<open>m\<close> leaves a
  state in \<open>I\<close> when it throws and one in \<open>J\<close> when it returns. The remaining
  predicates say which assignments a state predicate is insensitive to.\<close>

definition keeps :: "(state \<Rightarrow> bool) \<Rightarrow> 'a step \<Rightarrow> bool" where
  "keeps J m \<longleftrightarrow> (\<forall>s x s'. J s \<and> m s = (x, s') \<longrightarrow> J s')"

definition calls_free :: "(state \<Rightarrow> bool) \<Rightarrow> bool" where
  "calls_free J \<longleftrightarrow> (\<forall>s c. J (s\<lparr>calls := c\<rparr>) = J s)"

definition world_free :: "(state \<Rightarrow> bool) \<Rightarrow> bool" where
  "world_free J \<longleftrightarrow> (\<forall>s w. J (s\<lparr>world := w\<rparr>) = J s)"

definition page_free :: "(state \<Rightarrow> bool) \<Rightarrow> bool" where
  "page_free J \<longleftrightarrow> (\<forall>s p. J (s\<lparr>page := p\<rparr>) = J s)"

definition refs_parse :: "(state \<Rightarrow> bool) \<Rightarrow> bool" where
  "refs_parse J \<longleftrightarrow> (\<forall>s text. J s \<longrightarrow> J (s\<lparr>currentRefs := parseRefsFromSnapshot text\<rparr>))"

definition establishes :: "(state \<Rightarrow> bool) \<Rightarrow> (state \<Rightarrow> bool) \<Rightarrow> 'a step \<Rightarrow> bool" where
  "establishes I J m \<longleftrightarrow>
     (\<forall>s x s'. I s \<and> m s = (x, s') \<longrightarrow> (case x of Inl _ \<Rightarrow> I s' | Inr _ \<Rightarrow> J s'))"

definition active :: "state \<Rightarrow> bool" where
  "active s \<longleftrightarrow> browser s \<noteq> None"

text \<open>Inputs for the examples.\<close>

definition navigate_to :: "jsstring \<Rightarrow> tool_input" where
  "navigate_to u = (input Navigate)\<lparr>in_url := Some u\<rparr>"

(*DEFS-END*)

section \<open>Properties\<close>

subsection \<open>Basic facts about steps\<close>

lemma length_js [simp]: "length (js s) = length s"
  by (simp add: js_def)

lemma capture_snapshot_of:
  "capture_snapshot p (snapshot_of text) s = (Inr text, s\<lparr>calls := calls s @ [SnapshotForAI p]\<rparr>)"
  by (simp add: capture_snapshot_def snapshot_of_def all_ok_def then_do_def call_def return_def)

lemma takeSnapshot_returns:
  "capture_snapshot p r s = (Inr text, s1) \<Longrightarrow>
   takeSnapshot p maxChars r s =
     (let limit = (case maxChars of Some m \<Rightarrow> m | None \<Rightarrow> 50000) in
      if int (length text) > limit
      then (Inr (slice0 text limit @ TRUNCATED_MARKER, True),
            s1\<lparr>currentRefs := parseRefsFromSnapshot text\<rparr>)
      else (Inr (text, False), s1\<lparr>currentRefs := parseRefsFromSnapshot text\<rparr>))"
  by (simp add: takeSnapshot_def then_do_def Let_def)

lemma takeSnapshot_throws:
  "capture_snapshot p r s = (Inl e, s1) \<Longrightarrow> takeSnapshot p maxChars r s = (Inl e, s1)"
  by (simp add: takeSnapshot_def then_do_def)

subsection \<open>Truncation of the snapshot text\<close>

lemma length_TRUNCATED_MARKER: "length TRUNCATED_MARKER = 64"
  by (simp add: TRUNCATED_MARKER_def)

lemma slice0_nonneg: "0 \<le> e \<Longrightarrow> e < int (length s) \<Longrightarrow> slice0 s e = take (nat e) s"
  by (simp add: slice0_def Let_def min_def)

text \<open>
  Claim C2, for a limit that is not negative. When the capture obtains \<open>text\<close> and the
  limit \<open>K\<close> (\<open>maxChars\<close> when given, 50000 otherwise) is at least 0: a text of at most
  \<open>K\<close> code units is returned as it is, with \<open>truncated = false\<close>; a longer one is cut
  to its first \<open>K\<close> code units, followed by the marker (two line feeds and the bracketed
  notice, 64 code units), with \<open>truncated = true\<close>.
\<close>

theorem takeSnapshot_truncation:
  assumes capture: "capture_snapshot p r s = (Inr text, s1)"
      and limit: "K = (case maxChars of Some m \<Rightarrow> m | None \<Rightarrow> 50000)"
      and nonneg: "0 \<le> K"
  shows "(int (length text) \<le> K \<longrightarrow> fst (takeSnapshot p maxChars r s) = Inr (text, False)) \<and>
         (int (length text) > K \<longrightarrow>
            fst (takeSnapshot p maxChars r s) =
              Inr (take (nat K) text @ [0x0A, 0x0A] @
                     js ''[...TRUNCATED - page too large, use read action for full text]'', True) \<and>
            int (length (take (nat K) text @ [0x0A, 0x0A] @
                     js ''[...TRUNCATED - page too large, use read action for full text]'')) = K + 64)"
  using nonneg
  by (auto simp add: takeSnapshot_returns [OF capture] limit [symmetric] Let_def slice0_nonneg
      TRUNCATED_MARKER_def)

text \<open>The text \<open>abc\<close> with the limits 2, 3 and the default.\<close>

theorem takeSnapshot_truncation_witness:
  "fst (takeSnapshot 0 (Some 2) (snapshot_of (js ''abc'')) initial_state) =
     Inr (js ''ab'' @ [0x0A, 0x0A] @
          js ''[...TRUNCATED - page too large, use read action for full text]'', True) \<and>
   fst (takeSnapshot 0 (Some 3) (snapshot_of (js ''abc'')) initial_state) = Inr (js ''abc'', False) \<and>
   fst (takeSnapshot 0 None (snapshot_of (js ''abc'')) initial_state) = Inr (js ''abc'', False)"
  using takeSnapshot_truncation [OF capture_snapshot_of, of 2 "Some 2" "js ''abc''" 0 initial_state]
    takeSnapshot_truncation [OF capture_snapshot_of, of 3 "Some 3" "js ''abc''" 0 initial_state]
    takeSnapshot_truncation [OF capture_snapshot_of, of 50000 None "js ''abc''" 0 initial_state]
  by (simp add: js_def)

text \<open>
  \<open>maxChars\<close> is any number of the schema. With \<open>maxChars = -1\<close> the text \<open>abc\<close> is
  longer than the limit, and \<open>slice(0, -1)\<close> keeps \<open>ab\<close>: neither the first \<open>-1\<close>
  code units, nor an output of \<open>-1 + 64\<close> code units.
\<close>

theorem takeSnapshot_negative_limit:
  "fst (takeSnapshot 0 (Some (- 1)) (snapshot_of (js ''abc'')) initial_state) =
     Inr (js ''ab'' @ TRUNCATED_MARKER, True) \<and>
   int (length (js ''ab'' @ TRUNCATED_MARKER)) \<noteq> - 1 + int (length TRUNCATED_MARKER)"
  by (simp add: takeSnapshot_returns [OF capture_snapshot_of] slice0_def Let_def
      length_TRUNCATED_MARKER js_def)

subsection \<open>Steps and invariants\<close>

lemma keepsD: "keeps J m \<Longrightarrow> J s \<Longrightarrow> m s = (x, s') \<Longrightarrow> J s'"
  by (auto simp: keeps_def)

lemma keeps_return: "keeps J (return x)"
  by (simp add: keeps_def return_def)

lemma keeps_call: "calls_free J \<Longrightarrow> keeps J (call c out)"
  by (simp add: keeps_def call_def calls_free_def)

lemma keeps_call_read: "calls_free J \<Longrightarrow> keeps J (\<lambda>s. call (c s) (out s) s)"
  by (simp add: keeps_def call_def calls_free_def)

lemma keeps_then:
  assumes m: "keeps J m" and f: "\<And>x. keeps J (f x)"
  shows "keeps J (then_do m f)"
  unfolding keeps_def
proof (intro allI impI, elim conjE)
  fix s x s'
  assume J: "J s" and run: "then_do m f s = (x, s')"
  obtain y s1 where ms: "m s = (y, s1)"
    by (cases "m s")
  have J1: "J s1"
    using m J ms by (rule keepsD)
  show "J s'"
  proof (cases y)
    case (Inl e)
    with ms run have "s' = s1"
      by (simp add: then_do_def)
    with J1 show ?thesis by simp
  next
    case (Inr a)
    with ms run have "f a s1 = (x, s')"
      by (simp add: then_do_def)
    with f J1 show ?thesis
      by (rule keepsD)
  qed
qed

lemma keeps_swallow:
  assumes m: "keeps J m"
  shows "keeps J (swallow m)"
  unfolding keeps_def
proof (intro allI impI, elim conjE)
  fix s x s'
  assume J: "J s" and run: "swallow m s = (x, s')"
  obtain y s1 where ms: "m s = (y, s1)"
    by (cases "m s")
  with run have "s' = s1"
    by (simp add: swallow_def)
  with keepsD [OF m J ms] show "J s'"
    by simp
qed

lemma keeps_option: "keeps J a \<Longrightarrow> (\<And>y. keeps J (b y)) \<Longrightarrow> keeps J (case x of None \<Rightarrow> a | Some y \<Rightarrow> b y)"
  by (cases x) simp_all

lemma keeps_fresh: "world_free J \<Longrightarrow> keeps J fresh_handle"
  by (simp add: keeps_def fresh_handle_def world_free_def)

lemma keeps_update: "(\<And>s. J s \<Longrightarrow> J (g s)) \<Longrightarrow> keeps J (\<lambda>s. (Inr x, g s))"
  by (simp add: keeps_def)

lemma keeps_newContext: "calls_free J \<Longrightarrow> world_free J \<Longrightarrow> keeps J (newContext out b)"
  unfolding newContext_def
  by (intro keeps_then keeps_call keeps_fresh keeps_update) (simp_all add: world_free_def)

lemma keeps_newPage: "calls_free J \<Longrightarrow> world_free J \<Longrightarrow> keeps J (newPage out c)"
  unfolding newPage_def
  by (intro keeps_then keeps_call keeps_fresh keeps_update) (simp_all add: world_free_def)

lemma keeps_context_of: "calls_free J \<Longrightarrow> keeps J (context_of p)"
  unfolding context_of_def by (rule keeps_call_read)

lemma keeps_launch: "calls_free J \<Longrightarrow> world_free J \<Longrightarrow> keeps J (chromium_launch r)"
  unfolding chromium_launch_def
  by (intro keeps_then keeps_call keeps_fresh)

lemma keeps_capture: "calls_free J \<Longrightarrow> keeps J (capture_snapshot p r)"
  unfolding capture_snapshot_def
  by (intro keeps_option keeps_then keeps_call keeps_return)

lemma establishesD:
  "establishes I J m \<Longrightarrow> I s \<Longrightarrow> m s = (Inl e, s') \<Longrightarrow> I s'"
  "establishes I J m \<Longrightarrow> I s \<Longrightarrow> m s = (Inr a, s') \<Longrightarrow> J s'"
  unfolding establishes_def by force+

lemma keeps_pure: "keeps J (\<lambda>s. (h s, s))"
  by (simp add: keeps_def)

lemma keeps_prod: "(\<And>a b. keeps J (f a b)) \<Longrightarrow> keeps J (case x of (a, b) \<Rightarrow> f a b)"
  by (cases x) simp

lemma keeps_kind:
  "keeps J a1 \<Longrightarrow> keeps J a2 \<Longrightarrow> keeps J a3 \<Longrightarrow> keeps J a4 \<Longrightarrow> keeps J a5 \<Longrightarrow> keeps J a6 \<Longrightarrow>
   keeps J (case k of KClick \<Rightarrow> a1 | KType \<Rightarrow> a2 | KPress \<Rightarrow> a3 | KHover \<Rightarrow> a4
                    | KScroll \<Rightarrow> a5 | KWait \<Rightarrow> a6)"
  by (cases k) simp_all

lemma keeps_takeSnapshot:
  assumes "calls_free J" and parse: "refs_parse J"
  shows "keeps J (takeSnapshot p maxChars r)"
  unfolding takeSnapshot_def
proof (rule keeps_then)
  show "keeps J (capture_snapshot p r)"
    using assms(1) by (rule keeps_capture)
next
  fix snapshot
  show "keeps J (\<lambda>s. let s1 = s\<lparr>currentRefs := parseRefsFromSnapshot snapshot\<rparr>;
                          limit = (case maxChars of Some m \<Rightarrow> m | None \<Rightarrow> 50000)
                      in if int (length snapshot) > limit
                         then (Inr (slice0 snapshot limit @ TRUNCATED_MARKER, True), s1)
                         else (Inr (snapshot, False), s1))"
    using parse by (auto simp add: keeps_def refs_parse_def Let_def)
qed

lemma establishes_then:
  assumes m: "establishes I J m" and f: "\<And>x. keeps J (f x)" and JI: "\<forall>s. J s \<longrightarrow> I s"
  shows "keeps I (then_do m f)"
  unfolding keeps_def
proof (intro allI impI, elim conjE)
  fix s x s'
  assume I: "I s" and run: "then_do m f s = (x, s')"
  obtain y s1 where ms: "m s = (y, s1)"
    by (cases "m s")
  show "I s'"
  proof (cases y)
    case (Inl e)
    with ms run have "s' = s1"
      by (simp add: then_do_def)
    moreover from m I ms Inl have "I s1"
      by (simp add: establishesD(1))
    ultimately show ?thesis by simp
  next
    case (Inr a)
    with ms run have "f a s1 = (x, s')"
      by (simp add: then_do_def)
    moreover from m I ms Inr have "J s1"
      by (simp add: establishesD(2))
    ultimately have "J s'"
      using f by (blast dest: keepsD)
    then show ?thesis using JI by simp
  qed
qed

lemma after_navigate:
  assumes "calls_free J"
  shows "keeps J (then_do (call (Goto p u) (goto_r r)) (\<lambda>_.
          then_do (call (PageUrl p) (Inr (url_r r))) (\<lambda>pu.
          then_do (call (PageTitle p) (title_r r)) (\<lambda>title.
          return (LoadedP pu title h)))))"
  by (intro keeps_then keeps_call keeps_return assms)

lemma case_navigate_keeps:
  assumes ens: "establishes I J (ensureBrowser r)" and JI: "\<forall>s. J s \<longrightarrow> I s"
    and "calls_free J"
  shows "keeps I (case_navigate url r)"
  unfolding case_navigate_def
  by (intro keeps_option keeps_return establishes_then [OF ens _ JI] after_navigate assms(3))

lemma case_open_keeps:
  assumes ens: "establishes I J (ensureBrowser r)" and JI: "\<forall>s. J s \<longrightarrow> I s"
    and "calls_free J" and "world_free J" and "page_free J"
  shows "keeps I (case_open url r)"
  unfolding case_open_def
  apply (intro keeps_option keeps_return establishes_then [OF ens _ JI])
  apply (intro keeps_then keeps_context_of keeps_newPage keeps_call keeps_return keeps_update
      assms(3) assms(4))
  using assms(5) apply (simp add: page_free_def)
  done

lemma case_snapshot_keeps:
  assumes ens: "establishes I J (ensureBrowser r)" and JI: "\<forall>s. J s \<longrightarrow> I s"
    and "calls_free J" and "refs_parse J"
  shows "keeps I (case_snapshot maxChars r)"
  unfolding case_snapshot_def
  apply (intro establishes_then [OF ens _ JI])
  apply (intro keeps_then keeps_swallow keeps_call keeps_takeSnapshot keeps_pure assms(3) assms(4))
  apply (rule keeps_prod)
  apply (intro keeps_then keeps_call keeps_pure assms(3))
  done

lemma case_act_keeps:
  assumes ens: "establishes I J (ensureBrowser r)" and JI: "\<forall>s. J s \<longrightarrow> I s"
    and "calls_free J"
  shows "keeps I (case_act rq r)"
  unfolding case_act_def Let_def
  apply (intro keeps_option keeps_return establishes_then [OF ens _ JI])
  apply (intro keeps_kind keeps_option keeps_return keeps_then keeps_swallow keeps_call
      keeps_call_read assms(3))
  done

lemma case_read_keeps:
  assumes ens: "establishes I J (ensureBrowser r)" and JI: "\<forall>s. J s \<longrightarrow> I s"
    and "calls_free J"
  shows "keeps I (case_read r)"
  unfolding case_read_def
  apply (intro establishes_then [OF ens _ JI])
  apply (intro keeps_then keeps_swallow keeps_call keeps_return assms(3))
  done

lemma case_close_keeps:
  assumes "keeps I (closeBrowser r)"
  shows "keeps I (case_close r)"
  unfolding case_close_def
  by (intro keeps_then keeps_return assms)

lemma try_body_keeps:
  assumes ens: "establishes I J (ensureBrowser r)" and JI: "\<forall>s. J s \<longrightarrow> I s"
    and "calls_free J" and "world_free J" and "page_free J" and "refs_parse J"
    and "keeps I (closeBrowser r)"
  shows "keeps I (try_body inp r)"
proof (cases "in_action inp")
  case Navigate
  then show ?thesis
    by (simp add: try_body_def case_navigate_keeps [OF ens JI assms(3)])
next
  case Open
  then show ?thesis
    by (simp add: try_body_def case_open_keeps [OF ens JI assms(3) assms(4) assms(5)])
next
  case Snapshot
  then show ?thesis
    by (simp add: try_body_def case_snapshot_keeps [OF ens JI assms(3) assms(6)])
next
  case Act
  then show ?thesis
    by (simp add: try_body_def case_act_keeps [OF ens JI assms(3)])
next
  case Read
  then show ?thesis
    by (simp add: try_body_def case_read_keeps [OF ens JI assms(3)])
next
  case Close
  then show ?thesis
    by (simp add: try_body_def case_close_keeps [OF assms(7)])
qed

lemma tool_payload_keeps:
  assumes body: "keeps I (try_body inp r)" and "calls_free I" and I: "I s"
  shows "I (snd (tool_payload inp r s))"
proof -
  obtain x s' where run: "try_body inp r s = (x, s')"
    by (cases "try_body inp r s")
  from body I run have "I s'"
    by (rule keepsD)
  with assms(2) run show ?thesis
    by (cases x) (simp_all add: tool_payload_def calls_free_def)
qed

lemma keeps_option_read:
  assumes a: "keeps J a" and b: "\<And>y. keeps J (b y)"
  shows "keeps J (\<lambda>s. case sel s of None \<Rightarrow> a s | Some y \<Rightarrow> b y s)"
  unfolding keeps_def
proof (intro allI impI, elim conjE)
  fix s x s'
  assume J: "J s" and run: "(case sel s of None \<Rightarrow> a s | Some y \<Rightarrow> b y s) = (x, s')"
  show "J s'"
  proof (cases "sel s")
    case None
    with run have "a s = (x, s')" by simp
    with a J show ?thesis by (blast dest: keepsD)
  next
    case (Some y)
    with run have "b y s = (x, s')" by simp
    with b J show ?thesis by (blast dest: keepsD)
  qed
qed

lemma establishes_then_keeps:
  assumes m: "establishes I J m" and f: "\<And>x. keeps J (f x)" and JI: "\<forall>s. J s \<longrightarrow> I s"
  shows "establishes I J (then_do m f)"
  unfolding establishes_def
proof (intro allI impI, elim conjE)
  fix s x s'
  assume I: "I s" and run: "then_do m f s = (x, s')"
  obtain y s1 where ms: "m s = (y, s1)"
    by (cases "m s")
  show "case x of Inl _ \<Rightarrow> I s' | Inr _ \<Rightarrow> J s'"
  proof (cases y)
    case (Inl e)
    with ms run have "s' = s1" "x = Inl e"
      by (simp_all add: then_do_def)
    moreover from m I ms Inl have "I s1"
      by (simp add: establishesD(1))
    ultimately show ?thesis by simp
  next
    case (Inr a)
    with ms run have "f a s1 = (x, s')"
      by (simp add: then_do_def)
    moreover from m I ms Inr have "J s1"
      by (simp add: establishesD(2))
    ultimately have "J s'"
      using f by (blast dest: keepsD)
    then show ?thesis using JI by (cases x) simp_all
  qed
qed

lemma keeps_establishes:
  assumes "keeps J m"
  shows "establishes J J m"
  unfolding establishes_def
proof (intro allI impI, elim conjE)
  fix s x s'
  assume "J s" and "m s = (x, s')"
  with assms have "J s'" by (blast dest: keepsD)
  then show "case x of Inl _ \<Rightarrow> J s' | Inr _ \<Rightarrow> J s'"
    by (cases x) simp_all
qed

lemma ensure_page_keeps:
  assumes "calls_free J" and "world_free J" and "page_free J"
  shows "keeps J (\<lambda>s. case page s of
                 Some p \<Rightarrow> return p s
               | None \<Rightarrow>
                   then_do (newContext (newContext_r r) b) (\<lambda>c.
                   then_do (newPage (ensure_newPage_r r) c) (\<lambda>p s.
                     (Inr p, s\<lparr>page := Some p\<rparr>))) s)"
  apply (rule keeps_option_read [where a = "then_do (newContext (newContext_r r) b) (\<lambda>c.
                   then_do (newPage (ensure_newPage_r r) c) (\<lambda>p s.
                     (Inr p, s\<lparr>page := Some p\<rparr>)))" and b = return and sel = page, simplified])
   apply (intro keeps_then keeps_newContext keeps_newPage keeps_update assms(1) assms(2))
   using assms(3) apply (simp add: page_free_def)
  apply (rule keeps_return)
  done

lemma active_free: "calls_free active" "world_free active" "page_free active" "refs_parse active"
  by (simp_all add: calls_free_def world_free_def page_free_def refs_parse_def active_def)

lemma active_session: "\<forall>s. active s \<longrightarrow> session_inv s"
  by (auto simp add: active_def session_inv_def)

lemma ensure_browser_session:
  "establishes session_inv active (\<lambda>s. case browser s of
                     Some b \<Rightarrow> return b s
                   | None \<Rightarrow> then_do (chromium_launch r) (\<lambda>b s. (Inr b, s\<lparr>browser := Some b\<rparr>)) s)"
  unfolding establishes_def
  by (auto simp add: active_def session_inv_def return_def then_do_def chromium_launch_def call_def
      fresh_handle_def split: option.splits sum.splits)

lemma ensure_session: "establishes session_inv active (ensureBrowser r)"
  unfolding ensureBrowser_def
  by (intro establishes_then_keeps ensure_browser_session ensure_page_keeps active_free active_session)

lemma close_session: "keeps session_inv (closeBrowser r)"
  unfolding keeps_def
  by (auto simp add: closeBrowser_def browser_close_def then_do_def call_def return_def
      session_inv_def split: option.splits sum.splits)

lemma session_calls_free: "calls_free session_inv"
  by (simp add: calls_free_def session_inv_def)

lemma try_body_session: "keeps session_inv (try_body inp r)"
  by (rule try_body_keeps [OF ensure_session active_session active_free close_session])

lemma tool_session:
  "session_inv s \<Longrightarrow> session_inv (snd (tool_payload inp r s))"
  by (rule tool_payload_keeps [OF try_body_session session_calls_free])

lemma run_session: "session_inv s \<Longrightarrow> session_inv (run steps s)"
  by (induction steps s rule: run.induct) (simp_all add: tool_session)

lemma snd_browserTool_func: "snd (browserTool_func fmt inp r s) = snd (tool_payload inp r s)"
  by (simp add: browserTool_func_def split: prod.splits)

lemma fst_browserTool_func: "fst (browserTool_func fmt inp r s) = fmt (fst (tool_payload inp r s))"
  by (simp add: browserTool_func_def split: prod.splits)

subsection \<open>The invariant of the module state\<close>

text \<open>
  Claim C10. The invariant holds initially, every invocation of the tool preserves it
  whatever the driver answers, and so it holds after every sequence of invocations.
\<close>

theorem session_invariant:
  "session_inv initial_state \<and>
   (session_inv s \<longrightarrow> session_inv (snd (browserTool_func fmt inp r s))) \<and>
   session_inv (run steps initial_state)"
proof -
  have init: "session_inv initial_state"
    by (simp add: session_inv_def initial_state_def)
  then show ?thesis
    by (simp add: snd_browserTool_func tool_session run_session)
qed

text \<open>A session that navigates, takes a snapshot and closes; before the close the
  browser is there.\<close>

theorem session_invariant_witness:
  "session_inv (run [(navigate_to (js ''u''), all_ok), (input Snapshot, all_ok), (input Close, all_ok)] initial_state)
   \<and> browser (run [(navigate_to (js ''u''), all_ok), (input Snapshot, all_ok)] initial_state) = Some 0"
  using session_invariant [of initial_state id "input Close" all_ok "[(navigate_to (js ''u''), all_ok), (input Snapshot, all_ok), (input Close, all_ok)]"]
  by simp code_simp

subsection \<open>Closing\<close>

lemma closeBrowser_closed: "browser s = None \<Longrightarrow> closeBrowser r s = (Inr (), s)"
  by (simp add: closeBrowser_def return_def)

lemma closeBrowser_open:
  "browser s = Some b \<Longrightarrow> close_r r = Inr () \<Longrightarrow>
   closeBrowser r s =
     (Inr (), s\<lparr>browser := None, page := None, currentRefs := [],
                world := (world s)\<lparr>closed_browsers := insert b (closed_browsers (world s))\<rparr>,
                calls := calls s @ [BrowserClose b]\<rparr>)"
  by (simp add: closeBrowser_def browser_close_def then_do_def call_def)

lemma closeBrowser_throws:
  "browser s = Some b \<Longrightarrow> close_r r = Inl e \<Longrightarrow>
   closeBrowser r s = (Inl e, s\<lparr>calls := calls s @ [BrowserClose b]\<rparr>)"
  by (simp add: closeBrowser_def browser_close_def then_do_def call_def)

lemma tool_close:
  "in_action inp = Close \<Longrightarrow> closeBrowser r s = (Inr (), s') \<Longrightarrow>
   browserTool_func fmt inp r s = (fmt (ClosedP (js ''Browser closed'')), s')"
  by (simp add: browserTool_func_def tool_payload_def try_body_def case_close_def then_do_def return_def)

text \<open>
  Claim C7. \<open>close\<close> without a browser returns the confirmation and leaves the whole
  state as it is: the module variables, the driver, and no call is made. With a browser
  whose \<open>close()\<close> succeeds, \<open>close\<close> closes it in the driver, sets \<open>browser\<close> and
  \<open>page\<close> to null and empties the ref table; a second \<open>close\<close> then changes nothing.
\<close>

theorem close_idempotent:
  assumes close: "in_action inp = Close"
  shows "(browser s = None \<longrightarrow>
            browserTool_func fmt inp r s = (fmt (ClosedP (js ''Browser closed'')), s)) \<and>
         (\<forall>b. browser s = Some b \<and> close_r r = Inr () \<longrightarrow>
            browserTool_func fmt inp r s =
              (fmt (ClosedP (js ''Browser closed'')),
               s\<lparr>browser := None, page := None, currentRefs := [],
                 world := (world s)\<lparr>closed_browsers := insert b (closed_browsers (world s))\<rparr>,
                 calls := calls s @ [BrowserClose b]\<rparr>) \<and>
            browserTool_func fmt inp r' (snd (browserTool_func fmt inp r s)) =
              (fmt (ClosedP (js ''Browser closed'')), snd (browserTool_func fmt inp r s)))"
proof (intro conjI allI impI)
  assume "browser s = None"
  then show "browserTool_func fmt inp r s = (fmt (ClosedP (js ''Browser closed'')), s)"
    by (simp add: tool_close [OF close] closeBrowser_closed)
next
  fix b assume b: "browser s = Some b \<and> close_r r = Inr ()"
  let ?s' = "s\<lparr>browser := None, page := None, currentRefs := [],
                 world := (world s)\<lparr>closed_browsers := insert b (closed_browsers (world s))\<rparr>,
                 calls := calls s @ [BrowserClose b]\<rparr>"
  from b show first: "browserTool_func fmt inp r s = (fmt (ClosedP (js ''Browser closed'')), ?s')"
    by (simp add: tool_close [OF close] closeBrowser_open)
  have "browser ?s' = None" by simp
  then have "browserTool_func fmt inp r' ?s' = (fmt (ClosedP (js ''Browser closed'')), ?s')"
    by (simp add: tool_close [OF close] closeBrowser_closed)
  then show "browserTool_func fmt inp r' (snd (browserTool_func fmt inp r s)) =
              (fmt (ClosedP (js ''Browser closed'')), snd (browserTool_func fmt inp r s))"
    by (simp add: first)
qed

text \<open>\<open>close\<close> on the initial state, and \<open>close\<close> after a navigation.\<close>

theorem close_idempotent_witness:
  "browserTool_func id (input Close) all_ok initial_state =
     (ClosedP (js ''Browser closed''), initial_state) \<and>
   browser (snd (browserTool_func id (input Close) all_ok
     (run [(navigate_to (js ''https://example.test/''), all_ok)] initial_state))) = None \<and>
   page (snd (browserTool_func id (input Close) all_ok
     (run [(navigate_to (js ''https://example.test/''), all_ok)] initial_state))) = None \<and>
   currentRefs (snd (browserTool_func id (input Close) all_ok
     (run [(navigate_to (js ''https://example.test/''), all_ok)] initial_state))) = [] \<and>
   closed_browsers (world (snd (browserTool_func id (input Close) all_ok
     (run [(navigate_to (js ''https://example.test/''), all_ok)] initial_state)))) = {0}"
proof -
  have close: "in_action (input Close) = Close"
    by (simp add: input_def)
  have none: "browser initial_state = None"
    by (simp add: initial_state_def)
  have some: "browser (run [(navigate_to (js ''https://example.test/''), all_ok)] initial_state) = Some 0"
    by code_simp
  have ok: "close_r all_ok = Inr ()"
    by (simp add: all_ok_def)
  have before: "closed_browsers (world
      (run [(navigate_to (js ''https://example.test/''), all_ok)] initial_state)) = {}"
    by code_simp
  from close_idempotent [OF close, of initial_state id all_ok] none
  have first: "browserTool_func id (input Close) all_ok initial_state =
     (ClosedP (js ''Browser closed''), initial_state)"
    by simp
  from close_idempotent [OF close,
      of "run [(navigate_to (js ''https://example.test/''), all_ok)] initial_state" id all_ok all_ok]
    some ok
  have "browserTool_func id (input Close) all_ok
          (run [(navigate_to (js ''https://example.test/''), all_ok)] initial_state) =
        (ClosedP (js ''Browser closed''),
         (run [(navigate_to (js ''https://example.test/''), all_ok)] initial_state)
           \<lparr>browser := None, page := None, currentRefs := [],
            world := (world (run [(navigate_to (js ''https://example.test/''), all_ok)] initial_state))
              \<lparr>closed_browsers := insert 0 (closed_browsers (world
                  (run [(navigate_to (js ''https://example.test/''), all_ok)] initial_state)))\<rparr>,
            calls := calls (run [(navigate_to (js ''https://example.test/''), all_ok)] initial_state) @
              [BrowserClose 0]\<rparr>)"
    by simp
  with first before show ?thesis
    by simp
qed

subsection \<open>Replacement of the ref table\<close>

lemma takeSnapshot_refs:
  "capture_snapshot p r s = (Inr text, s1) \<Longrightarrow>
   currentRefs (snd (takeSnapshot p maxChars r s)) = parseRefsFromSnapshot text"
  by (simp add: takeSnapshot_returns Let_def)

lemma resolve_absent:
  "map_of refs ref = None \<Longrightarrow> resolveRefToLocator refs p ref = Locator p (js ''aria-ref='' @ ref)"
  by (simp add: resolveRefToLocator_def)

text \<open>
  Claim C1. A capture that obtains a text sets the ref table to the table parsed from
  that text, whatever the table was before. After two snapshots in a row, a ref of the
  first text that the second text does not have is resolved by the \<open>aria-ref\<close> locator
  on the raw id.
\<close>

theorem snapshot_replaces_ref_table:
  assumes first: "capture_snapshot p1 r1 s0 = (Inr S1, s0')"
      and s1: "s1 = snd (takeSnapshot p1 m1 r1 s0)"
      and second: "capture_snapshot p2 r2 s1 = (Inr S2, s1')"
      and s2: "s2 = snd (takeSnapshot p2 m2 r2 s1)"
      and present: "map_of (parseRefsFromSnapshot S1) ref \<noteq> None"
      and absent: "map_of (parseRefsFromSnapshot S2) ref = None"
  shows "currentRefs s1 = parseRefsFromSnapshot S1 \<and>
         currentRefs s2 = parseRefsFromSnapshot S2 \<and>
         resolveRefToLocator (currentRefs s2) p ref = Locator p (js ''aria-ref='' @ ref)"
proof -
  have one: "currentRefs s1 = parseRefsFromSnapshot S1"
    unfolding s1 using first by (rule takeSnapshot_refs)
  have two: "currentRefs s2 = parseRefsFromSnapshot S2"
    unfolding s2 using second by (rule takeSnapshot_refs)
  from absent have "resolveRefToLocator (currentRefs s2) p ref = Locator p (js ''aria-ref='' @ ref)"
    unfolding two by (rule resolve_absent)
  with one two show ?thesis by simp
qed

theorem snapshot_replaces_ref_table_witness:
  "currentRefs (snd (takeSnapshot 2 None (snapshot_of (js ''- link \"Home\" [ref=e2]''))
     (snd (takeSnapshot 2 None (snapshot_of (js ''- link \"Docs\" [ref=e1]'')) initial_state)))) =
     [(js ''e2'', \<lparr>ref_role = js ''link'', ref_name = Some (js ''Home''), ref_nth = None\<rparr>)] \<and>
   resolveRefToLocator
     (currentRefs (snd (takeSnapshot 2 None (snapshot_of (js ''- link \"Home\" [ref=e2]''))
       (snd (takeSnapshot 2 None (snapshot_of (js ''- link \"Docs\" [ref=e1]'')) initial_state)))))
     2 (js ''e1'') = Locator 2 (js ''aria-ref=e1'')"
proof -
  have present: "map_of (parseRefsFromSnapshot (js ''- link \"Docs\" [ref=e1]'')) (js ''e1'') \<noteq> None"
    by code_simp
  have absent: "map_of (parseRefsFromSnapshot (js ''- link \"Home\" [ref=e2]'')) (js ''e1'') = None"
    by code_simp
  have table: "parseRefsFromSnapshot (js ''- link \"Home\" [ref=e2]'') =
      [(js ''e2'', \<lparr>ref_role = js ''link'', ref_name = Some (js ''Home''), ref_nth = None\<rparr>)]"
    by code_simp
  have lit: "js ''aria-ref='' @ js ''e1'' = js ''aria-ref=e1''"
    by (simp add: js_def)
  show ?thesis
    using snapshot_replaces_ref_table [OF capture_snapshot_of refl capture_snapshot_of refl present absent,
        of 2 None initial_state 2 None 2]
    unfolding table lit by blast
qed

subsection \<open>The boundary of the tool\<close>

text \<open>
  Claim C8. Whenever the body of the \<open>try\<close> block throws, the tool returns the error
  payload whose message is the thrown message behind the prefix
  \<open>[Browser (Playwright)]\<close>, after logging it; the tool itself never throws.
\<close>

theorem uncaught_failure_reported:
  assumes "fst (try_body inp r s) = Inl message"
  shows "fst (browserTool_func fmt inp r s) = fmt (ErrorP (js ''[Browser (Playwright)] '' @ message)) \<and>
         snd (browserTool_func fmt inp r s) =
           (snd (try_body inp r s))\<lparr>calls := calls (snd (try_body inp r s)) @
              [LogError (js ''[Browser (Playwright)] error: '' @ message)]\<rparr>"
  using assms
  by (cases "try_body inp r s") (simp add: fst_browserTool_func snd_browserTool_func tool_payload_def)

text \<open>A navigation whose \<open>goto\<close> times out.\<close>

theorem uncaught_failure_reported_witness:
  "fst (browserTool_func id (navigate_to (js ''https://example.test/'')) (all_ok\<lparr>goto_r := Inl (js ''Timeout 30000ms exceeded'')\<rparr>) initial_state)
     = ErrorP (js ''[Browser (Playwright)] Timeout 30000ms exceeded'')"
proof -
  have thrown: "fst (try_body (navigate_to (js ''https://example.test/'')) (all_ok\<lparr>goto_r := Inl (js ''Timeout 30000ms exceeded'')\<rparr>) initial_state) = Inl (js ''Timeout 30000ms exceeded'')"
    by code_simp
  have lit: "js ''[Browser (Playwright)] '' @ js ''Timeout 30000ms exceeded'' = js ''[Browser (Playwright)] Timeout 30000ms exceeded''"
    by (simp add: js_def)
  show ?thesis
    using uncaught_failure_reported [OF thrown, of id] by (simp add: lit)
qed

subsection \<open>Validation of the request\<close>

text \<open>
  Claim C5 at the first invocation of a session, \<open>act\<close> with kind \<open>click\<close> and no
  \<open>ref\<close>: \<open>ensureBrowser\<close> runs before the check of \<open>ref\<close>, so the browser is
  launched, a context and a page are created, and only then is the missing parameter
  reported; when the launch throws, the launch error is reported instead.
\<close>

theorem act_click_without_ref_calls_driver:
  "fst (tool_payload ((input Act)\<lparr>in_request := Some (request_of KClick)\<rparr>) all_ok initial_state) =
     ErrorP (js ''ref is required for click'') \<and>
   calls (snd (tool_payload ((input Act)\<lparr>in_request := Some (request_of KClick)\<rparr>) all_ok initial_state)) =
     [Launch, NewContext 0, NewPage 1] \<and>
   fst (tool_payload ((input Act)\<lparr>in_request := Some (request_of KClick)\<rparr>)
          (all_ok\<lparr>launch_r := Inl (js ''Executable does not exist'')\<rparr>) initial_state) =
     ErrorP (js ''[Browser (Playwright)] Executable does not exist'')"
  by code_simp

subsection \<open>The regular expressions of the parser\<close>

lemma strip_prefix_iff: "strip_prefix p s = Some r \<longleftrightarrow> s = p @ r"
  by (induction p s rule: strip_prefix.induct) auto

lemma not_digit_rbracket: "\<not> is_digit 0x5D"
  by (simp add: is_digit_def)

lemma takeWhile_all: "\<forall>c\<in>set xs. P c \<Longrightarrow> \<not> P y \<Longrightarrow> takeWhile P (xs @ y # ys) = xs"
  by (induction xs) auto

lemma dropWhile_all: "\<forall>c\<in>set xs. P c \<Longrightarrow> \<not> P y \<Longrightarrow> dropWhile P (xs @ y # ys) = y # ys"
  by (induction xs) auto

lemma digits_marker_at_iff:
  "digits_marker_at opener s = Some ds \<longleftrightarrow>
     ds \<noteq> [] \<and> (\<forall>c\<in>set ds. is_digit c) \<and> (\<exists>post. s = opener @ ds @ 0x5D # post)"
proof
  assume m: "digits_marker_at opener s = Some ds"
  then obtain rest where rest: "strip_prefix opener s = Some rest"
    by (auto simp add: digits_marker_at_def split: option.splits)
  from m rest have ds: "ds = takeWhile is_digit rest" and ne: "ds \<noteq> []"
    and after: "\<exists>post. dropWhile is_digit rest = 0x5D # post"
    by (auto simp add: digits_marker_at_def Let_def split: if_splits list.splits)
  from after obtain post where post: "dropWhile is_digit rest = 0x5D # post" ..
  have "rest = takeWhile is_digit rest @ dropWhile is_digit rest"
    by simp
  with ds post have "rest = ds @ 0x5D # post"
    by simp
  moreover from rest have "s = opener @ rest"
    by (simp add: strip_prefix_iff)
  moreover from ds have "\<forall>c\<in>set ds. is_digit c"
    by (auto dest: set_takeWhileD)
  ultimately show "ds \<noteq> [] \<and> (\<forall>c\<in>set ds. is_digit c) \<and> (\<exists>post. s = opener @ ds @ 0x5D # post)"
    using ne by auto
next
  assume r: "ds \<noteq> [] \<and> (\<forall>c\<in>set ds. is_digit c) \<and> (\<exists>post. s = opener @ ds @ 0x5D # post)"
  then obtain post where s: "s = opener @ ds @ 0x5D # post"
    by auto
  then have "strip_prefix opener s = Some (ds @ 0x5D # post)"
    by (simp add: strip_prefix_iff)
  moreover from r have "takeWhile is_digit (ds @ 0x5D # post) = ds"
    by (simp add: takeWhile_all not_digit_rbracket)
  moreover from r have "dropWhile is_digit (ds @ 0x5D # post) = 0x5D # post"
    by (simp add: dropWhile_all not_digit_rbracket)
  ultimately show "digits_marker_at opener s = Some ds"
    using r by (simp add: digits_marker_at_def)
qed

lemma quoted_at_iff:
  "quoted_at s = Some b \<longleftrightarrow>
     b \<noteq> [] \<and> dquote \<notin> set b \<and> (\<exists>post. s = dquote # b @ dquote # post)"
proof
  assume m: "quoted_at s = Some b"
  then obtain rest where s: "s = dquote # rest"
    by (auto simp add: quoted_at_def split: list.splits if_splits)
  from m s have b: "b = takeWhile (\<lambda>x. x \<noteq> dquote) rest" and ne: "b \<noteq> []"
    and after: "dropWhile (\<lambda>x. x \<noteq> dquote) rest \<noteq> []"
    by (auto simp add: quoted_at_def Let_def split: if_splits)
  from after obtain c post where post: "dropWhile (\<lambda>x. x \<noteq> dquote) rest = c # post"
    by (cases "dropWhile (\<lambda>x. x \<noteq> dquote) rest") auto
  then have "\<not> c \<noteq> dquote"
    using hd_dropWhile [of "\<lambda>x. x \<noteq> dquote" rest] by auto
  with post have post': "dropWhile (\<lambda>x. x \<noteq> dquote) rest = dquote # post"
    by simp
  have "rest = takeWhile (\<lambda>x. x \<noteq> dquote) rest @ dropWhile (\<lambda>x. x \<noteq> dquote) rest"
    by simp
  with b post' have "rest = b @ dquote # post"
    by simp
  moreover from b have "dquote \<notin> set b"
    by (auto dest: set_takeWhileD)
  ultimately show "b \<noteq> [] \<and> dquote \<notin> set b \<and> (\<exists>post. s = dquote # b @ dquote # post)"
    using ne s by auto
next
  assume r: "b \<noteq> [] \<and> dquote \<notin> set b \<and> (\<exists>post. s = dquote # b @ dquote # post)"
  then obtain post where s: "s = dquote # b @ dquote # post"
    by auto
  from r have all: "\<forall>c\<in>set b. c \<noteq> dquote"
    by auto
  have "takeWhile (\<lambda>x. x \<noteq> dquote) (b @ dquote # post) = b"
    using all by (simp add: takeWhile_all)
  moreover have "dropWhile (\<lambda>x. x \<noteq> dquote) (b @ dquote # post) = dquote # post"
    using all by (simp add: dropWhile_all)
  ultimately show "quoted_at s = Some b"
    using r s by (simp add: quoted_at_def)
qed



lemma dropWhile_none: "xs = [] \<or> \<not> P (hd xs) \<Longrightarrow> dropWhile P xs = xs"
  by (cases xs) auto





lemma regex_search_SomeD:
  "regex_search m s = Some r \<Longrightarrow> \<exists>k\<le>length s. m (drop k s) = Some r \<and> (\<forall>j<k. m (drop j s) = None)"
proof (induction s)
  case Nil
  then show ?case by simp
next
  case (Cons c cs)
  show ?case
  proof (cases "m (c # cs)")
    case (Some r')
    with Cons.prems have "m (drop 0 (c # cs)) = Some r"
      by simp
    then show ?thesis by blast
  next
    case None
    with Cons.prems have "regex_search m cs = Some r"
      by simp
    then obtain k where k: "k \<le> length cs" "m (drop k cs) = Some r" "\<forall>j<k. m (drop j cs) = None"
      using Cons.IH by blast
    have "\<forall>j<Suc k. m (drop j (c # cs)) = None"
    proof (intro allI impI)
      fix j assume "j < Suc k"
      then show "m (drop j (c # cs)) = None"
        using None k(3) by (cases j) simp_all
    qed
    with k(1) k(2) show ?thesis
      by (intro exI [of _ "Suc k"]) simp
  qed
qed

lemma regex_search_SomeI:
  "k \<le> length s \<Longrightarrow> m (drop k s) = Some r \<Longrightarrow> (\<forall>j<k. m (drop j s) = None) \<Longrightarrow>
   regex_search m s = Some r"
proof (induction s arbitrary: k)
  case Nil
  then show ?case by simp
next
  case (Cons c cs)
  show ?case
  proof (cases k)
    case 0
    with Cons.prems show ?thesis by simp
  next
    case (Suc k')
    with Cons.prems have none: "m (c # cs) = None"
      by (metis drop0 zero_less_Suc)
    from Suc Cons.prems have "k' \<le> length cs" "m (drop k' cs) = Some r"
      by simp_all
    moreover have "\<forall>j<k'. m (drop j cs) = None"
    proof (intro allI impI)
      fix j assume "j < k'"
      then have "Suc j < k" using Suc by simp
      with Cons.prems(3) have "m (drop (Suc j) (c # cs)) = None" by blast
      then show "m (drop j cs) = None" by simp
    qed
    ultimately have "regex_search m cs = Some r"
      by (rule Cons.IH)
    with none show ?thesis by simp
  qed
qed

lemma regex_search_None:
  "regex_search m s = None \<longleftrightarrow> (\<forall>k\<le>length s. m (drop k s) = None)"
proof (induction s)
  case Nil
  then show ?case by simp
next
  case (Cons c cs)
  show ?case
  proof
    assume n: "regex_search m (c # cs) = None"
    then have head: "m (c # cs) = None"
      by (simp split: option.splits)
    with n Cons.IH have tail: "\<forall>k\<le>length cs. m (drop k cs) = None"
      by simp
    show "\<forall>k\<le>length (c # cs). m (drop k (c # cs)) = None"
    proof (intro allI impI)
      fix k assume "k \<le> length (c # cs)"
      then show "m (drop k (c # cs)) = None"
        using head tail by (cases k) simp_all
    qed
  next
    assume a: "\<forall>k\<le>length (c # cs). m (drop k (c # cs)) = None"
    then have head: "m (c # cs) = None"
      by (metis drop0 le0)
    have "\<forall>k\<le>length cs. m (drop k cs) = None"
    proof (intro allI impI)
      fix k assume "k \<le> length cs"
      then have "Suc k \<le> length (c # cs)" by simp
      with a have "m (drop (Suc k) (c # cs)) = None" by blast
      then show "m (drop k cs) = None" by simp
    qed
    with Cons.IH head show "regex_search m (c # cs) = None"
      by simp
  qed
qed

lemma marker_at_iff:
  "marker_at opener line k ds \<longleftrightarrow> digits_marker_at opener (drop k line) = Some ds"
  by (simp add: marker_at_def digits_marker_at_iff)

lemma quoted_run_at_iff: "quoted_run_at line k b \<longleftrightarrow> quoted_at (drop k line) = Some b"
  by (simp add: quoted_run_at_def quoted_at_iff)

lemma leftmost_search:
  "leftmost (\<lambda>k x. m (drop k s) = Some x) k x \<longleftrightarrow>
     m (drop k s) = Some x \<and> (\<forall>j<k. m (drop j s) = None)"
  unfolding leftmost_def by simp

lemma regex_search_leftmost:
  "regex_search m s = Some x \<longleftrightarrow> (\<exists>k. leftmost (\<lambda>k x. m (drop k s) = Some x) k x)"
  unfolding leftmost_search
proof
  assume a: "regex_search m s = Some x"
  from regex_search_SomeD [OF a]
  show "\<exists>k. m (drop k s) = Some x \<and> (\<forall>j<k. m (drop j s) = None)"
    by blast
next
  assume "\<exists>k. m (drop k s) = Some x \<and> (\<forall>j<k. m (drop j s) = None)"
  then obtain k where here: "m (drop k s) = Some x"
    and before: "\<forall>j<k. m (drop j s) = None"
    by blast
  have le: "k \<le> length s"
  proof (rule ccontr)
    assume "\<not> k \<le> length s"
    then have less: "length s < k" and same: "drop k s = drop (length s) s"
      by simp_all
    from before less have "m (drop (length s) s) = None"
      by blast
    moreover from here same have "m (drop (length s) s) = Some x"
      by simp
    ultimately show False
      by simp
  qed
  from le here before show "regex_search m s = Some x"
    by (rule regex_search_SomeI)
qed

lemma regex_search_no_match:
  "regex_search m s = None \<longleftrightarrow> (\<forall>k x. m (drop k s) \<noteq> Some x)"
proof
  assume n: "regex_search m s = None"
  show "\<forall>k x. m (drop k s) \<noteq> Some x"
  proof (intro allI)
    fix k x
    have "drop k s = drop (min k (length s)) s"
      by (cases "k \<le> length s") (simp_all add: min_def)
    moreover have "m (drop (min k (length s)) s) = None"
      using n by (simp add: regex_search_None)
    ultimately show "m (drop k s) \<noteq> Some x"
      by simp
  qed
next
  assume "\<forall>k x. m (drop k s) \<noteq> Some x"
  then have "\<forall>k\<le>length s. m (drop k s) = None"
    by simp
  then show "regex_search m s = None"
    by (simp add: regex_search_None)
qed


lemma refMatch_None: "refMatch line = None \<longleftrightarrow> (\<forall>k ds. \<not> marker_at (js ''[ref=e'') line k ds)"
  unfolding refMatch_def by (simp add: regex_search_no_match marker_at_iff)



lemma nameMatch_iff: "nameMatch line = Some b \<longleftrightarrow> (\<exists>k. leftmost (quoted_run_at line) k b)"
  unfolding nameMatch_def by (simp add: regex_search_leftmost quoted_run_at_iff [abs_def])



lemma parse_line_None: "parse_line line = None \<longleftrightarrow> (\<forall>k ds. \<not> marker_at (js ''[ref=e'') line k ds)"
  by (simp add: parse_line_def refMatch_None [symmetric] split: option.splits)




subsection \<open>The loop of the parser\<close>









lemma parse_line_name:
  assumes "parse_line l = Some (k, e)"
  shows "ref_name e \<noteq> Some []"
proof
  assume "ref_name e = Some []"
  with assms have "nameMatch l = Some []"
    by (auto simp add: parse_line_def split: option.splits)
  then obtain j where "quoted_run_at l j []"
    by (auto simp add: nameMatch_iff leftmost_def)
  then show False
    by (simp add: quoted_run_at_def)
qed



end
